theory Spec2Isabelle
  imports Complex_Main "HOL-Library.AList"
begin

section \<open>The multi-group optimizer coordinator of scrstudio/engine/optimizers.py\<close>

text \<open>
  The class \<open>Optimizers\<close> keeps four Python dictionaries keyed by the name of a parameter
  group. A dictionary is an association list with distinct keys in insertion order:
  \<open>map_of d k\<close> is the lookup \<open>d[k]\<close> (\<open>None\<close> where Python raises KeyError),
  \<open>AList.update k v d\<close> is the assignment \<open>d[k] = v\<close> (an existing key keeps its place,
  a new key goes to the end) and \<open>map fst d\<close> is \<open>d.keys()\<close>.

  Python floats are written as the real numbers their literals denote; no claim below
  depends on rounding. A tensor is a handle (a natural number); whether its \<open>.grad\<close>
  attribute is set is read from a store \<open>grads\<close>.
\<close>

subsection \<open>Exceptions\<close>

text \<open>
  \<open>RuntimeError name keys\<close> is the exception of lines 112-114, given by the two values its
  message interpolates: the group name and \<open>config.keys()\<close>. \<open>KeyError k\<close> is a failed
  dictionary lookup of key \<open>k\<close>; \<open>AttributeError a\<close> and \<open>TypeError m\<close> arise when a
  configuration value is not of the class the code expects.
\<close>

datatype error =
    RuntimeError string "string list"
  | KeyError string
  | AttributeError string
  | TypeError string

subsection \<open>Configuration objects\<close>

datatype optim_class = Adam | AdamW | RAdam

text \<open>
  The dataclass \<open>OptimizerConfig\<close> and its subclasses. The base class has no
  \<open>weight_decay\<close> field, which is \<open>None\<close> here; the field \<open>target\<close> is \<open>_target\<close>.
\<close>

record OptimizerConfig =
  target :: optim_class
  lr :: real
  eps :: real
  max_norm :: "real option"
  weight_decay :: "real option"

definition AdamOptimizerConfig :: "real \<Rightarrow> real \<Rightarrow> OptimizerConfig" where
  "AdamOptimizerConfig l e =
     \<lparr>target = Adam, lr = l, eps = e, max_norm = None, weight_decay = Some 0\<rparr>"


definition RAdamOptimizerConfig :: "real \<Rightarrow> real \<Rightarrow> OptimizerConfig" where
  "RAdamOptimizerConfig l e =
     \<lparr>target = RAdam, lr = l, eps = e, max_norm = None, weight_decay = Some 0\<rparr>"

type_synonym param = nat

text \<open>
  The optimizer instance that \<open>_target(params, **kwargs)\<close> returns: the class, the keyword
  arguments it was given (every field of the configuration except \<open>_target\<close> and
  \<open>max_norm\<close>) and its \<open>param_groups\<close>, one group holding the list it was built from.
\<close>

record optimizer =
  opt_class :: optim_class
  opt_lr :: real
  opt_eps :: real
  opt_weight_decay :: "real option"
  param_groups :: "param list list"

definition optimizer_setup :: "OptimizerConfig \<Rightarrow> param list \<Rightarrow> optimizer" where
  "optimizer_setup c params =
     \<lparr>opt_class = target c, opt_lr = lr c, opt_eps = eps c,
      opt_weight_decay = weight_decay c, param_groups = [params]\<rparr>"

text \<open>
  Modelled from the spec: the module \<open>scrstudio.engine.schedulers\<close> is not among the
  sources. A scheduler configuration is a schedule selector with its own parameters; the
  only one the coordinator names is the exponential decay, built with a final rate and a
  horizon in steps.
\<close>

datatype SchedulerConfig =
  ExponentialDecaySchedulerConfig (lr_final: real) (max_steps: int)

text \<open>
  Modelled from the spec: the scheduler instance that
  \<open>cfg.setup().get_scheduler(optimizer=..., lr_init=...)\<close> returns, bound to an
  already constructed optimizer and an initial rate.
\<close>

record scheduler =
  sched_config :: SchedulerConfig
  sched_optimizer :: optimizer
  sched_lr_init :: real

definition get_scheduler :: "SchedulerConfig \<Rightarrow> optimizer \<Rightarrow> real \<Rightarrow> scheduler" where
  "get_scheduler sc opt lr_init =
     \<lparr>sched_config = sc, sched_optimizer = opt, sched_lr_init = lr_init\<rparr>"

text \<open>
  The value stored under a key of a group's configuration entry (\<open>Any\<close> in the source):
  \<open>None\<close>, an optimizer configuration or a scheduler configuration. In a condition
  \<open>None\<close> is false and a configuration object, which defines neither \<open>__bool__\<close>
  nor \<open>__len__\<close>, is true.
\<close>

datatype cfg_value = PyNone | OptCfg OptimizerConfig | SchedCfg SchedulerConfig

fun truthy :: "cfg_value \<Rightarrow> bool" where
  "truthy PyNone = False"
| "truthy (OptCfg c) = True"
| "truthy (SchedCfg s) = True"

type_synonym entry = "(string \<times> cfg_value) list"
type_synonym config = "(string \<times> entry) list"

subsection \<open>The coordinator\<close>

record Optimizers =
  config :: config
  optimizers :: "(string \<times> optimizer) list"
  schedulers :: "(string \<times> scheduler) list"
  parameters :: "(string \<times> param list) list"

text \<open>
  What a call of \<open>__init__\<close> leaves behind: the object under construction (its
  \<open>config\<close> attribute is the caller's mapping itself, so \<open>config (obj r)\<close> is also the
  caller's mapping after the call), the messages printed on the console, and the
  exception raised, if any.
\<close>

record init_result =
  obj :: Optimizers
  printed :: "string list"
  raised :: "error option"

definition camera_opt_warning :: string where
  "camera_opt_warning =
     CHR 0x0A # ''The '' @ CHR 0x27 # ''camera_opt'' @ CHR 0x27 #
       '' param group should be assigned an optimizer in the config. Assigning default optimizers for now. This will be removed in a future release.''
       @ [CHR 0x0A]"

definition camera_opt_default :: entry where
  "camera_opt_default =
     [(''optimizer'', OptCfg (AdamOptimizerConfig (1 / 10 ^ 3) (1 / 10 ^ 15))),
      (''scheduler'', SchedCfg (ExponentialDecaySchedulerConfig (1 / 10 ^ 4) 30000))]"

text \<open>Lines 96-109: the deprecation path for the group \<open>camera_opt\<close>.\<close>

definition fix_camera_opt :: "string \<Rightarrow> init_result \<Rightarrow> init_result" where
  "fix_camera_opt name r =
     (if name = ''camera_opt'' \<and> map_of (config (obj r)) ''camera_opt'' = None
      then r\<lparr>obj := (obj r)\<lparr>config := AList.update ''camera_opt'' camera_opt_default (config (obj r))\<rparr>,
             printed := printed r @ [camera_opt_warning]\<rparr>
      else r)"

text \<open>Lines 118-123: the scheduler of one group, once its optimizer is stored.\<close>

definition init_scheduler :: "string \<Rightarrow> entry \<Rightarrow> real \<Rightarrow> init_result \<Rightarrow> init_result" where
  "init_scheduler name e lr_init r =
     (case map_of e ''scheduler'' of
        None \<Rightarrow> r\<lparr>raised := Some (KeyError ''scheduler'')\<rparr>
      | Some v \<Rightarrow>
          if truthy v then
            (case v of
               SchedCfg sc \<Rightarrow>
                 (case map_of (optimizers (obj r)) name of
                    None \<Rightarrow> r\<lparr>raised := Some (KeyError name)\<rparr>
                  | Some opt \<Rightarrow>
                      r\<lparr>obj := (obj r)\<lparr>schedulers :=
                           AList.update name (get_scheduler sc opt lr_init) (schedulers (obj r))\<rparr>\<rparr>)
             | _ \<Rightarrow> r\<lparr>raised := Some (TypeError ''setup'')\<rparr>)
          else r)"

text \<open>Lines 110-123: one round of the loop, after the deprecation path.\<close>

definition init_group :: "string \<Rightarrow> param list \<Rightarrow> init_result \<Rightarrow> init_result" where
  "init_group name params r0 =
     (let r = fix_camera_opt name r0 in
      case map_of (config (obj r)) name of
        None \<Rightarrow> r\<lparr>raised := Some (RuntimeError name (map fst (config (obj r))))\<rparr>
      | Some e \<Rightarrow>
          (case map_of e ''optimizer'' of
             None \<Rightarrow> r\<lparr>raised := Some (KeyError ''optimizer'')\<rparr>
           | Some (OptCfg oc) \<Rightarrow>
               init_scheduler name e (lr oc)
                 (r\<lparr>obj := (obj r)\<lparr>optimizers := AList.update name (optimizer_setup oc params) (optimizers (obj r)),
                                    parameters := AList.update name params (parameters (obj r))\<rparr>\<rparr>)
           | Some _ \<Rightarrow> r\<lparr>raised := Some (AttributeError ''lr'')\<rparr>))"

text \<open>The loop of line 95: it stops at the first exception.\<close>

fun init_loop :: "(string \<times> param list) list \<Rightarrow> init_result \<Rightarrow> init_result" where
  "init_loop [] r = r"
| "init_loop ((name, params) # rest) r =
     (let r' = init_group name params r in
      case raised r' of
        Some e \<Rightarrow> r'
      | None \<Rightarrow> init_loop rest r')"

text \<open>
  Lines 90-94 and the loop: \<open>__init__(config, param_groups)\<close>. The parameter mapping is
  called \<open>param_groups_in\<close> here, \<open>param_groups\<close> being the field of an optimizer.
\<close>

definition init :: "config \<Rightarrow> (string \<times> param list) list \<Rightarrow> init_result" where
  "init cfg param_groups_in =
     init_loop param_groups_in
       \<lparr>obj = \<lparr>config = cfg, optimizers = [], schedulers = [], parameters = []\<rparr>,
        printed = [], raised = None\<rparr>"

subsection \<open>Calls on the external objects\<close>

text \<open>
  The methods below assign no attribute of the coordinator; all they do is call the
  optimizers, the schedulers, the gradient scaler and \<open>clip_grad_norm_\<close>. A method is
  therefore modelled by the sequence of calls it makes and the exception it raises, if
  any (the calls made before the exception have happened). The optimizer or scheduler a
  call is made on is given by the group name under which the coordinator holds it;
  \<open>Clip_grad_norm ps m\<close> is \<open>torch.nn.utils.clip_grad_norm_(ps, m)\<close>, whose norm type is
  left at its default, the 2-norm over all the tensors of \<open>ps\<close> together.
\<close>

datatype call =
    Optimizer_step string
  | Optimizer_zero_grad string
  | Scheduler_step string
  | GradScaler_unscale string
  | GradScaler_step string
  | Clip_grad_norm "param list" real

text \<open>A \<open>for\<close> loop whose body makes calls and may raise: it stops at the first exception.\<close>

fun for_each :: "('a \<Rightarrow> 'c list \<times> error option) \<Rightarrow> 'a list \<Rightarrow> 'c list \<times> error option" where
  "for_each body [] = ([], None)"
| "for_each body (x # xs) =
     (case body x of
        (cs, Some e) \<Rightarrow> (cs, Some e)
      | (cs, None) \<Rightarrow> (case for_each body xs of (cs', r) \<Rightarrow> (cs @ cs', r)))"

text \<open>The expression \<open>self.config[param_group]["optimizer"].max_norm\<close>.\<close>

definition config_max_norm :: "Optimizers \<Rightarrow> string \<Rightarrow> error + real option" where
  "config_max_norm self g =
     (case map_of (config self) g of
        None \<Rightarrow> Inl (KeyError g)
      | Some e \<Rightarrow>
          (case map_of e ''optimizer'' of
             None \<Rightarrow> Inl (KeyError ''optimizer'')
           | Some (OptCfg oc) \<Rightarrow> Inr (max_norm oc)
           | Some _ \<Rightarrow> Inl (AttributeError ''max_norm'')))"

text \<open>
  Lines 164 and 179:
  \<open>any(any(p.grad is not None for p in g["params"]) for g in optimizer.param_groups)\<close>.
  None of the calls of a stepping method sets or clears a \<open>.grad\<close> attribute (they rescale
  or consume the gradients that are there), so the store \<open>grads\<close> is read as it is when
  the method is entered.
\<close>

definition any_grad :: "(param \<Rightarrow> 'g option) \<Rightarrow> optimizer \<Rightarrow> bool" where
  "any_grad grads opt = list_ex (\<lambda>g. list_ex (\<lambda>p. grads p \<noteq> None) g) (param_groups opt)"

text \<open>Lines 160-165 and 175-180: the body shared by the two scaler-integrated loops.\<close>

definition scaler_step_group ::
    "Optimizers \<Rightarrow> (param \<Rightarrow> 'g option) \<Rightarrow> string \<Rightarrow> optimizer \<Rightarrow> call list \<times> error option" where
  "scaler_step_group self grads g opt =
     (case config_max_norm self g of
        Inl e \<Rightarrow> ([], Some e)
      | Inr None \<Rightarrow> (if any_grad grads opt then [GradScaler_step g] else [], None)
      | Inr (Some m) \<Rightarrow>
          (case map_of (parameters self) g of
             None \<Rightarrow> ([GradScaler_unscale g], Some (KeyError g))
           | Some ps \<Rightarrow>
               ([GradScaler_unscale g, Clip_grad_norm ps m]
                  @ (if any_grad grads opt then [GradScaler_step g] else []), None)))"


text \<open>Lines 174-180: one round of the loop over the given names.\<close>

definition scaler_step_named ::
    "Optimizers \<Rightarrow> (param \<Rightarrow> 'g option) \<Rightarrow> string \<Rightarrow> call list \<times> error option" where
  "scaler_step_named self grads g =
     (case map_of (optimizers self) g of
        None \<Rightarrow> ([], Some (KeyError g))
      | Some opt \<Rightarrow> scaler_step_group self grads g opt)"

definition optimizer_scaler_step_some ::
    "Optimizers \<Rightarrow> (param \<Rightarrow> 'g option) \<Rightarrow> string list \<Rightarrow> call list \<times> error option" where
  "optimizer_scaler_step_some self grads names = for_each (scaler_step_named self grads) names"

text \<open>Lines 125-131.\<close>

definition optimizer_step :: "Optimizers \<Rightarrow> string \<Rightarrow> call list \<times> error option" where
  "optimizer_step self g =
     (case map_of (optimizers self) g of
        None \<Rightarrow> ([], Some (KeyError g))
      | Some opt \<Rightarrow> ([Optimizer_step g], None))"



text \<open>Lines 133-140.\<close>

definition scheduler_step :: "Optimizers \<Rightarrow> string \<Rightarrow> call list \<times> error option" where
  "scheduler_step self g =
     (case map_of (config self) g of
        None \<Rightarrow> ([], Some (KeyError g))
      | Some e \<Rightarrow>
          if map_of e ''scheduler'' \<noteq> None then
            (case map_of (schedulers self) g of
               None \<Rightarrow> ([], Some (KeyError g))
             | Some s \<Rightarrow> ([Scheduler_step g], None))
          else ([], None))"

text \<open>Lines 142-151.\<close>

definition zero_grad_all :: "Optimizers \<Rightarrow> call list \<times> error option" where
  "zero_grad_all self = for_each (\<lambda>(g, opt). ([Optimizer_zero_grad g], None)) (optimizers self)"

definition zero_grad_some :: "Optimizers \<Rightarrow> string list \<Rightarrow> call list \<times> error option" where
  "zero_grad_some self names =
     for_each (\<lambda>g. case map_of (optimizers self) g of
                      None \<Rightarrow> ([], Some (KeyError g))
                    | Some opt \<Rightarrow> ([Optimizer_zero_grad g], None)) names"



subsection \<open>What a call reaches\<close>

text \<open>
  A call on an optimizer (directly or through the gradient scaler) reaches the state of
  that optimizer and the tensors of its \<open>param_groups\<close>; a call on a scheduler reaches
  the scheduler and its optimizer; \<open>clip_grad_norm_\<close> reaches the gradients of the
  tensors it is passed. \<open>call_group\<close> is the group whose optimizer or scheduler the
  call is made on, \<open>call_tensors\<close> the tensors the call reaches, and \<open>group_tensors\<close>
  the tensors the coordinator holds for a group.
\<close>

fun call_group :: "call \<Rightarrow> string option" where
  "call_group (Optimizer_step g) = Some g"
| "call_group (Optimizer_zero_grad g) = Some g"
| "call_group (Scheduler_step g) = Some g"
| "call_group (GradScaler_unscale g) = Some g"
| "call_group (GradScaler_step g) = Some g"
| "call_group (Clip_grad_norm ps m) = None"

definition optimizer_tensors :: "Optimizers \<Rightarrow> string \<Rightarrow> param set" where
  "optimizer_tensors self g =
     (case map_of (optimizers self) g of
        None \<Rightarrow> {}
      | Some opt \<Rightarrow> set (concat (param_groups opt)))"

fun call_tensors :: "Optimizers \<Rightarrow> call \<Rightarrow> param set" where
  "call_tensors self (Optimizer_step g) = optimizer_tensors self g"
| "call_tensors self (Optimizer_zero_grad g) = optimizer_tensors self g"
| "call_tensors self (Scheduler_step g) = {}"
| "call_tensors self (GradScaler_unscale g) = optimizer_tensors self g"
| "call_tensors self (GradScaler_step g) = optimizer_tensors self g"
| "call_tensors self (Clip_grad_norm ps m) = set ps"

definition group_tensors :: "Optimizers \<Rightarrow> string \<Rightarrow> param set" where
  "group_tensors self g =
     (case map_of (parameters self) g of
        None \<Rightarrow> {}
      | Some ps \<Rightarrow> set ps)"

subsection \<open>Invariants of construction\<close>

text \<open>
  An entry that line 115 to 123 accept: an optimizer configuration under \<open>optimizer\<close>, and
  \<open>None\<close> or a scheduler configuration under \<open>scheduler\<close>.
\<close>

definition entry_ok :: "entry \<Rightarrow> bool" where
  "entry_ok e =
     (case map_of e ''optimizer'' of
        Some (OptCfg oc) \<Rightarrow>
          (case map_of e ''scheduler'' of
             Some PyNone \<Rightarrow> True
           | Some (SchedCfg sc) \<Rightarrow> True
           | _ \<Rightarrow> False)
      | _ \<Rightarrow> False)"

text \<open>
  A group that one round of the loop sets up without exception: its entry is accepted, or
  it has no entry and is the group \<open>camera_opt\<close>.
\<close>

definition group_ready :: "config \<Rightarrow> string \<Rightarrow> bool" where
  "group_ready cfg g =
     (case map_of cfg g of
        None \<Rightarrow> g = ''camera_opt''
      | Some e \<Rightarrow> entry_ok e)"

text \<open>
  What the coordinator holds for a group that has been set up: the optimizer built from
  the group's configuration and parameter list, and a scheduler exactly when one is
  configured.
\<close>

definition group_built :: "Optimizers \<Rightarrow> string \<Rightarrow> bool" where
  "group_built self g \<longleftrightarrow>
     (\<exists>e oc ps.
        map_of (config self) g = Some e \<and>
        map_of e ''optimizer'' = Some (OptCfg oc) \<and>
        map_of (parameters self) g = Some ps \<and>
        map_of (optimizers self) g = Some (optimizer_setup oc ps) \<and>
        (map_of e ''scheduler'' = Some PyNone \<and> map_of (schedulers self) g = None \<or>
         (\<exists>sc. map_of e ''scheduler'' = Some (SchedCfg sc) \<and>
               map_of (schedulers self) g =
                 Some (get_scheduler sc (optimizer_setup oc ps) (lr oc)))))"

text \<open>The invariant of the loop of line 95, which every constructed coordinator satisfies.\<close>

definition consistent :: "Optimizers \<Rightarrow> bool" where
  "consistent self \<longleftrightarrow>
     map fst (optimizers self) = map fst (parameters self) \<and>
     distinct (map fst (parameters self)) \<and>
     set (map fst (schedulers self)) \<subseteq> set (map fst (parameters self)) \<and>
     (\<forall>g \<in> set (map fst (parameters self)). group_built self g)"

subsection \<open>A small coordinator\<close>

text \<open>
  Two groups for the instances below: \<open>a\<close> holds the tensors 0 and 1, clips at norm 1
  and has no scheduler; \<open>b\<close> holds the tensor 2, does not clip and has a scheduler.
  In \<open>example_grads\<close> only the tensor 0 has a gradient.
\<close>

definition example_config :: config where
  "example_config =
     [(''a'', [(''optimizer'',
                OptCfg \<lparr>target = Adam, lr = 1 / 2000, eps = 1 / 10 ^ 8, max_norm = Some 1,
                        weight_decay = Some 0\<rparr>),
               (''scheduler'', PyNone)]),
      (''b'', [(''optimizer'', OptCfg (RAdamOptimizerConfig (1 / 2000) (1 / 10 ^ 8))),
               (''scheduler'', SchedCfg (ExponentialDecaySchedulerConfig (1 / 10 ^ 4) 1000))])]"

definition example_param_groups :: "(string \<times> param list) list" where
  "example_param_groups = [(''a'', [0, 1]), (''b'', [2])]"

definition example_grads :: "param \<Rightarrow> nat option" where
  "example_grads = map_of [(0, 1)]"

section \<open>Auxiliary facts\<close>

subsection \<open>Construction\<close>

lemma update_absent: "map_of al k = None \<Longrightarrow> AList.update k v al = al @ [(k, v)]"
  by (induction al) (auto split: if_splits)

lemma entry_ok_default: "entry_ok camera_opt_default"
  by (simp add: entry_ok_def camera_opt_default_def)

lemma fix_camera_opt_raised: "raised (fix_camera_opt n r) = raised r"
  by (simp add: fix_camera_opt_def)

lemma fix_camera_opt_config:
  "config (obj (fix_camera_opt n r)) =
     (if n = ''camera_opt'' \<and> map_of (config (obj r)) ''camera_opt'' = None
      then config (obj r) @ [(''camera_opt'', camera_opt_default)] else config (obj r))"
  by (simp add: fix_camera_opt_def update_absent)

lemma fix_camera_opt_rest:
  "optimizers (obj (fix_camera_opt n r)) = optimizers (obj r)"
  "schedulers (obj (fix_camera_opt n r)) = schedulers (obj r)"
  "parameters (obj (fix_camera_opt n r)) = parameters (obj r)"
  by (simp_all add: fix_camera_opt_def)

lemma fix_camera_opt_lookup:
  "map_of (config (obj (fix_camera_opt n r))) n =
     (case map_of (config (obj r)) n of
        None \<Rightarrow> if n = ''camera_opt'' then Some camera_opt_default else None
      | Some e \<Rightarrow> Some e)"
  by (auto simp: fix_camera_opt_config map_add_def split: option.splits)

lemma init_group_raised:
  "raised r = None \<Longrightarrow>
   (raised (init_group n ps r) = None) = group_ready (config (obj r)) n"
  by (auto simp: init_group_def Let_def fix_camera_opt_lookup fix_camera_opt_raised
        init_scheduler_def group_ready_def entry_ok_def camera_opt_default_def
        AList.update_conv'
      split: option.splits cfg_value.splits)

lemma init_group_obj:
  assumes "raised r = None" and "raised (init_group n ps r) = None"
  shows "\<exists>e oc sv.
     map_of (config (obj (fix_camera_opt n r))) n = Some e \<and>
     map_of e ''optimizer'' = Some (OptCfg oc) \<and>
     map_of e ''scheduler'' = Some sv \<and>
     (sv = PyNone \<or> (\<exists>sc. sv = SchedCfg sc)) \<and>
     init_group n ps r =
       (fix_camera_opt n r)\<lparr>obj := (obj (fix_camera_opt n r))
          \<lparr>optimizers := AList.update n (optimizer_setup oc ps) (optimizers (obj r)),
           parameters := AList.update n ps (parameters (obj r)),
           schedulers := (case sv of
               SchedCfg sc \<Rightarrow> AList.update n (get_scheduler sc (optimizer_setup oc ps) (lr oc))
                                (schedulers (obj r))
             | _ \<Rightarrow> schedulers (obj r))\<rparr>\<rparr>"
  using assms
  by (auto simp: init_group_def Let_def fix_camera_opt_raised fix_camera_opt_rest
        init_scheduler_def AList.update_conv'
      split: option.splits cfg_value.splits if_splits)

lemma map_of_keys_None: "k \<notin> set (map fst al) \<Longrightarrow> map_of al k = None"
  by (simp add: map_of_eq_None_iff)

lemma group_built_cong:
  assumes "map_of (config s') g = map_of (config s) g"
    and "map_of (optimizers s') g = map_of (optimizers s) g"
    and "map_of (schedulers s') g = map_of (schedulers s) g"
    and "map_of (parameters s') g = map_of (parameters s) g"
  shows "group_built s' g = group_built s g"
  by (simp add: group_built_def assms)

lemma fix_camera_opt_keeps:
  "map_of (config (obj r)) g = Some e \<Longrightarrow> map_of (config (obj (fix_camera_opt n r))) g = Some e"
  by (auto simp: fix_camera_opt_config map_add_def split: option.splits)

lemma group_built_config: "group_built s g \<Longrightarrow> \<exists>e. map_of (config s) g = Some e"
  by (auto simp: group_built_def split: option.splits)

lemma init_group_consistent:
  assumes r: "raised r = None" and ok: "raised (init_group n ps r) = None"
    and c: "consistent (obj r)"
  shows "consistent (obj (init_group n ps r))"
proof -
  let ?f = "fix_camera_opt n r"
  from init_group_obj [OF r ok] obtain e oc sv where
    e: "map_of (config (obj ?f)) n = Some e"
    and oc: "map_of e ''optimizer'' = Some (OptCfg oc)"
    and sv: "map_of e ''scheduler'' = Some sv"
    and svc: "sv = PyNone \<or> (\<exists>sc. sv = SchedCfg sc)"
    and eq: "init_group n ps r =
       ?f\<lparr>obj := (obj ?f)
          \<lparr>optimizers := AList.update n (optimizer_setup oc ps) (optimizers (obj r)),
           parameters := AList.update n ps (parameters (obj r)),
           schedulers := (case sv of
               SchedCfg sc \<Rightarrow> AList.update n (get_scheduler sc (optimizer_setup oc ps) (lr oc))
                                (schedulers (obj r))
             | _ \<Rightarrow> schedulers (obj r))\<rparr>\<rparr>"
    by blast
  let ?s = "obj (init_group n ps r)"
  have cfg: "config ?s = config (obj ?f)" by (simp add: eq)
  have opts: "optimizers ?s = AList.update n (optimizer_setup oc ps) (optimizers (obj r))"
    by (simp add: eq)
  have pars: "parameters ?s = AList.update n ps (parameters (obj r))"
    by (simp add: eq)
  have scheds: "schedulers ?s = (case sv of
               SchedCfg sc \<Rightarrow> AList.update n (get_scheduler sc (optimizer_setup oc ps) (lr oc))
                                (schedulers (obj r))
             | _ \<Rightarrow> schedulers (obj r))"
    by (simp add: eq)
  from c have k: "map fst (optimizers (obj r)) = map fst (parameters (obj r))"
    and d: "distinct (map fst (parameters (obj r)))"
    and sk: "set (map fst (schedulers (obj r))) \<subseteq> set (map fst (parameters (obj r)))"
    and gb: "\<And>g. g \<in> set (map fst (parameters (obj r))) \<Longrightarrow> group_built (obj r) g"
    by (auto simp: consistent_def)
  have 1: "map fst (optimizers ?s) = map fst (parameters ?s)"
    using k by (simp add: opts pars AList.update_keys)
  have 2: "distinct (map fst (parameters ?s))"
    using d by (simp add: pars AList.distinct_update)
  have 3: "set (map fst (schedulers ?s)) \<subseteq> set (map fst (parameters ?s))"
  proof -
    have "fst ` set (schedulers ?s) \<subseteq> insert n (fst ` set (schedulers (obj r)))"
    proof (cases sv)
      case (SchedCfg sc)
      then show ?thesis by (simp add: scheds AList.dom_update)
    qed (auto simp: scheds)
    moreover have "fst ` set (parameters ?s) = insert n (fst ` set (parameters (obj r)))"
      by (simp add: pars AList.dom_update)
    ultimately show ?thesis using sk by auto
  qed
  have old_none: "sv = PyNone \<Longrightarrow> map_of (schedulers (obj r)) n = None"
  proof (cases "n \<in> set (map fst (parameters (obj r)))")
    case False
    with sk have "n \<notin> set (map fst (schedulers (obj r)))" by blast
    then show ?thesis by (rule map_of_keys_None)
  next
    case True
    assume p: "sv = PyNone"
    from gb [OF True] obtain e0 where e0: "map_of (config (obj r)) n = Some e0"
      using group_built_config by blast
    from fix_camera_opt_keeps [OF e0] e have "e0 = e" by simp
    with gb [OF True] e0 oc sv p show ?thesis
      by (auto simp: group_built_def)
  qed
  have 4: "group_built ?s g" if g: "g \<in> set (map fst (parameters ?s))" for g
  proof (cases "g = n")
    case True
    show ?thesis using svc old_none e oc sv
      by (auto simp: True group_built_def cfg opts pars scheds AList.update_conv')
  next
    case False
    with g have g0: "g \<in> set (map fst (parameters (obj r)))"
      by (auto simp: pars AList.update_keys split: if_splits)
    from gb [OF g0] obtain e0 where e0: "map_of (config (obj r)) g = Some e0"
      using group_built_config by blast
    have "group_built ?s g = group_built (obj r) g"
    proof (rule group_built_cong)
      show "map_of (config ?s) g = map_of (config (obj r)) g"
        using fix_camera_opt_keeps [OF e0] e0 by (simp add: cfg)
      show "map_of (optimizers ?s) g = map_of (optimizers (obj r)) g"
        using False by (simp add: opts AList.update_conv')
      show "map_of (schedulers ?s) g = map_of (schedulers (obj r)) g"
        using False by (simp add: scheds AList.update_conv' split: cfg_value.splits)
      show "map_of (parameters ?s) g = map_of (parameters (obj r)) g"
        using False by (simp add: pars AList.update_conv')
    qed
    with gb [OF g0] show ?thesis by simp
  qed
  from 1 2 3 4 show ?thesis unfolding consistent_def by blast
qed

lemma init_loop_consistent:
  "raised r = None \<Longrightarrow> consistent (obj r) \<Longrightarrow> raised (init_loop xs r) = None \<Longrightarrow>
   consistent (obj (init_loop xs r))"
proof (induction xs arbitrary: r)
  case Nil
  then show ?case by simp
next
  case (Cons x xs)
  obtain n ps where x: "x = (n, ps)" by (cases x)
  show ?case
  proof (cases "raised (init_group n ps r)")
    case None
    from init_group_consistent [OF Cons.prems(1) None Cons.prems(2)]
    have "consistent (obj (init_group n ps r))" .
    with Cons.IH [OF None] Cons.prems(3) show ?thesis
      by (simp add: x Let_def None)
  next
    case (Some e)
    with Cons.prems(3) show ?thesis by (simp add: x Let_def)
  qed
qed

lemma consistent_empty:
  "consistent \<lparr>config = cfg, optimizers = [], schedulers = [], parameters = []\<rparr>"
  by (simp add: consistent_def)

lemma init_consistent: "raised (init cfg pg) = None \<Longrightarrow> consistent (obj (init cfg pg))"
  unfolding init_def by (rule init_loop_consistent) (simp_all add: consistent_empty)

lemma init_loop_append:
  "raised r = None \<Longrightarrow>
   init_loop (xs @ ys) r =
     (if raised (init_loop xs r) = None then init_loop ys (init_loop xs r) else init_loop xs r)"
proof (induction xs arbitrary: r)
  case Nil
  then show ?case by simp
next
  case (Cons x xs)
  obtain n ps where x: "x = (n, ps)" by (cases x)
  show ?case
  proof (cases "raised (init_group n ps r)")
    case None
    with Cons.IH [OF None] show ?thesis by (simp add: x Let_def)
  next
    case (Some e)
    then show ?thesis by (simp add: x Let_def)
  qed
qed

lemma init_append:
  "init cfg (xs @ ys) =
     (if raised (init cfg xs) = None then init_loop ys (init cfg xs) else init cfg xs)"
  unfolding init_def by (rule init_loop_append) simp

lemma init_group_config: "config (obj (init_group n ps r)) = config (obj (fix_camera_opt n r))"
  by (simp add: init_group_def Let_def init_scheduler_def
      split: option.splits cfg_value.splits)

lemma init_group_printed: "printed (init_group n ps r) = printed (fix_camera_opt n r)"
  by (simp add: init_group_def Let_def init_scheduler_def
      split: option.splits cfg_value.splits)

lemma fix_camera_opt_printed:
  "printed (fix_camera_opt n r) =
     (if n = ''camera_opt'' \<and> map_of (config (obj r)) ''camera_opt'' = None
      then printed r @ [camera_opt_warning] else printed r)"
  by (simp add: fix_camera_opt_def)

lemma init_loop_config:
  "(printed (init_loop xs r) = printed r \<and> config (obj (init_loop xs r)) = config (obj r)) \<or>
   (map_of (config (obj r)) ''camera_opt'' = None \<and>
    printed (init_loop xs r) = printed r @ [camera_opt_warning] \<and>
    config (obj (init_loop xs r)) = config (obj r) @ [(''camera_opt'', camera_opt_default)])"
proof (induction xs arbitrary: r)
  case Nil
  then show ?case by simp
next
  case (Cons x xs)
  obtain n ps where x: "x = (n, ps)" by (cases x)
  let ?r = "init_group n ps r"
  have c: "config (obj ?r) = config (obj (fix_camera_opt n r))"
    and p: "printed ?r = printed (fix_camera_opt n r)"
    by (rule init_group_config, rule init_group_printed)
  show ?case
  proof (cases "raised ?r")
    case (Some e)
    then show ?thesis
      by (simp add: x Let_def c p fix_camera_opt_config fix_camera_opt_printed)
  next
    case None
    then have eq: "init_loop (x # xs) r = init_loop xs ?r" by (simp add: x Let_def)
    show ?thesis
    proof (cases "n = ''camera_opt'' \<and> map_of (config (obj r)) ''camera_opt'' = None")
      case True
      have c': "config (obj ?r) = config (obj r) @ [(''camera_opt'', camera_opt_default)]"
        and p': "printed ?r = printed r @ [camera_opt_warning]"
        using True c p by (simp_all add: fix_camera_opt_config fix_camera_opt_printed)
      then have "map_of (config (obj ?r)) ''camera_opt'' \<noteq> None"
        by simp
      with Cons.IH [of ?r] have "printed (init_loop xs ?r) = printed ?r"
        and "config (obj (init_loop xs ?r)) = config (obj ?r)" by auto
      with True c' p' show ?thesis
        by (simp add: eq)
    next
      case False
      then have "config (obj ?r) = config (obj r)" "printed ?r = printed r"
        by (auto simp: c p fix_camera_opt_config fix_camera_opt_printed)
      with Cons.IH [of ?r] show ?thesis by (simp add: eq)
    qed
  qed
qed

lemma group_ready_fix:
  "group_ready (config (obj (fix_camera_opt n r))) m = group_ready (config (obj r)) m"
  by (auto simp: group_ready_def fix_camera_opt_config map_add_def entry_ok_default
      split: option.splits)

lemma init_loop_raised:
  "raised r = None \<Longrightarrow>
   (raised (init_loop xs r) = None) = (\<forall>n \<in> fst ` set xs. group_ready (config (obj r)) n)"
proof (induction xs arbitrary: r)
  case Nil
  then show ?case by simp
next
  case (Cons x xs)
  obtain n ps where x: "x = (n, ps)" by (cases x)
  let ?r = "init_group n ps r"
  have g: "(raised ?r = None) = group_ready (config (obj r)) n"
    by (rule init_group_raised [OF Cons.prems])
  show ?case
  proof (cases "raised ?r")
    case None
    with Cons.IH [OF None] g show ?thesis
      by (simp add: x Let_def init_group_config group_ready_fix)
  next
    case (Some e)
    with g show ?thesis by (auto simp: x Let_def)
  qed
qed

lemma init_raised:
  "(raised (init cfg pg) = None) = (\<forall>n \<in> fst ` set pg. group_ready cfg n)"
  unfolding init_def by (subst init_loop_raised) simp_all

lemma init_config:
  "(printed (init cfg pg) = [] \<and> config (obj (init cfg pg)) = cfg) \<or>
   (map_of cfg ''camera_opt'' = None \<and> printed (init cfg pg) = [camera_opt_warning] \<and>
    config (obj (init cfg pg)) = cfg @ [(''camera_opt'', camera_opt_default)])"
  using init_loop_config [of pg "\<lparr>obj = \<lparr>config = cfg, optimizers = [], schedulers = [],
    parameters = []\<rparr>, printed = [], raised = None\<rparr>"]
  by (simp add: init_def)

lemma init_loop_fired:
  "raised r = None \<Longrightarrow> raised (init_loop xs r) = None \<Longrightarrow>
   (printed (init_loop xs r) = printed r) =
     (\<not> (''camera_opt'' \<in> fst ` set xs \<and> map_of (config (obj r)) ''camera_opt'' = None))"
proof (induction xs arbitrary: r)
  case Nil
  then show ?case by simp
next
  case (Cons x xs)
  obtain n ps where x: "x = (n, ps)" by (cases x)
  let ?r = "init_group n ps r"
  from Cons.prems(2) have ok: "raised ?r = None"
    by (cases "raised ?r") (simp_all add: x Let_def)
  then have eq: "init_loop (x # xs) r = init_loop xs ?r" by (simp add: x Let_def)
  with Cons.prems(2) have ok2: "raised (init_loop xs ?r) = None" by simp
  have c: "config (obj ?r) = config (obj (fix_camera_opt n r))"
    and p: "printed ?r = printed (fix_camera_opt n r)"
    by (rule init_group_config, rule init_group_printed)
  have keys: "fst ` set (x # xs) = insert n (fst ` set xs)" by (simp add: x)
  show ?case unfolding eq keys
  proof (cases "n = ''camera_opt'' \<and> map_of (config (obj r)) ''camera_opt'' = None")
    case True
    have p': "printed ?r = printed r @ [camera_opt_warning]"
      using True p by (simp add: fix_camera_opt_printed)
    from init_loop_config [of xs ?r]
    have "length (printed (init_loop xs ?r)) \<ge> length (printed ?r)" by auto
    with p' have "printed (init_loop xs ?r) \<noteq> printed r" by auto
    with True show "(printed (init_loop xs ?r) = printed r) =
      (\<not> (''camera_opt'' \<in> insert n (fst ` set xs) \<and> map_of (config (obj r)) ''camera_opt'' = None))"
      by simp
  next
    case False
    then have "config (obj ?r) = config (obj r)" "printed ?r = printed r"
      by (auto simp: c p fix_camera_opt_config fix_camera_opt_printed)
    with Cons.IH [OF ok ok2] False
    show "(printed (init_loop xs ?r) = printed r) =
      (\<not> (''camera_opt'' \<in> insert n (fst ` set xs) \<and> map_of (config (obj r)) ''camera_opt'' = None))"
      by auto
  qed
qed

lemma init_config_ok:
  assumes "raised (init cfg pg) = None"
  shows "config (obj (init cfg pg)) =
     (if ''camera_opt'' \<in> fst ` set pg \<and> map_of cfg ''camera_opt'' = None
      then cfg @ [(''camera_opt'', camera_opt_default)] else cfg)"
proof -
  let ?r0 = "\<lparr>obj = \<lparr>config = cfg, optimizers = [], schedulers = [],
    parameters = []\<rparr>, printed = [], raised = None\<rparr>"
  have "(printed (init_loop pg ?r0) = printed ?r0) =
     (\<not> (''camera_opt'' \<in> fst ` set pg \<and> map_of (config (obj ?r0)) ''camera_opt'' = None))"
    by (rule init_loop_fired) (use assms in \<open>simp_all add: init_def\<close>)
  then have "(printed (init cfg pg) = []) =
     (\<not> (''camera_opt'' \<in> fst ` set pg \<and> map_of cfg ''camera_opt'' = None))"
    by (simp add: init_def)
  with init_config [of cfg pg] show ?thesis by (auto simp: camera_opt_warning_def)
qed





lemma consistentD:
  assumes "consistent self" and "g \<in> fst ` set (parameters self)"
  shows "group_built self g"
  using assms by (auto simp: consistent_def)

lemma init_loop_first_fired:
  "raised r = None \<Longrightarrow> printed (init_loop xs r) \<noteq> printed r \<Longrightarrow>
   \<exists>pre ps post. xs = pre @ (''camera_opt'', ps) # post \<and> raised (init_loop pre r) = None"
proof (induction xs arbitrary: r)
  case Nil
  then show ?case by simp
next
  case (Cons x xs)
  obtain n ps where x: "x = (n, ps)" by (cases x)
  let ?r = "init_group n ps r"
  show ?case
  proof (cases "n = ''camera_opt''")
    case True
    with Cons.prems(1) have "x # xs = [] @ (''camera_opt'', ps) # xs \<and> raised (init_loop [] r) = None"
      by (simp add: x)
    then show ?thesis by blast
  next
    case False
    then have p: "printed ?r = printed r"
      by (simp add: init_group_printed fix_camera_opt_printed)
    have ok: "raised ?r = None"
    proof (cases "raised ?r")
      case (Some e)
      then have "init_loop (x # xs) r = ?r" by (simp add: x Let_def)
      with Cons.prems(2) p show ?thesis by simp
    qed simp
    then have eq: "init_loop (x # xs) r = init_loop xs ?r" by (simp add: x Let_def)
    with Cons.prems(2) p have "printed (init_loop xs ?r) \<noteq> printed ?r" by simp
    from Cons.IH [OF ok this] obtain pre ps' post where
      xs: "xs = pre @ (''camera_opt'', ps') # post" and r: "raised (init_loop pre ?r) = None"
      by blast
    have "init_loop (x # pre) r = init_loop pre ?r" using ok by (simp add: x Let_def)
    with r have "raised (init_loop (x # pre) r) = None" by simp
    moreover have "x # xs = (x # pre) @ (''camera_opt'', ps') # post" by (simp add: xs)
    ultimately show ?thesis by blast
  qed
qed


subsection \<open>Loops that make calls\<close>

lemma for_each_calls:
  "c \<in> set (fst (for_each body xs)) \<Longrightarrow> \<exists>x \<in> set xs. c \<in> set (fst (body x))"
proof (induction xs)
  case Nil
  then show ?case by simp
next
  case (Cons x xs)
  then show ?case
    by (cases "body x"; cases "snd (body x)"; cases "for_each body xs") auto
qed





lemma any_grad_setup:
  "any_grad grads (optimizer_setup oc ps) = (\<exists>p \<in> set ps. grads p \<noteq> None)"
  by (simp add: any_grad_def optimizer_setup_def list_ex_iff)

lemma group_builtD:
  assumes "group_built self g"
  obtains e oc ps where "map_of (config self) g = Some e"
    and "map_of e ''optimizer'' = Some (OptCfg oc)"
    and "map_of (parameters self) g = Some ps"
    and "map_of (optimizers self) g = Some (optimizer_setup oc ps)"
    and "config_max_norm self g = Inr (max_norm oc)"
  using assms by (auto simp: group_built_def config_max_norm_def)

lemma consistent_keys:
  assumes "consistent self"
  shows "map fst (optimizers self) = map fst (parameters self)"
    and "distinct (map fst (parameters self))"
    and "distinct (map fst (optimizers self))"
  using assms by (auto simp: consistent_def)

lemma consistent_item:
  assumes "consistent self" and "(g, opt) \<in> set (optimizers self)"
  shows "map_of (optimizers self) g = Some opt" and "group_built self g"
proof -
  from assms show "map_of (optimizers self) g = Some opt"
    by (simp add: consistent_keys(3))
  have "g \<in> fst ` set (optimizers self)" using assms(2) by force
  then have "g \<in> fst ` set (parameters self)"
    using consistent_keys(1) [OF assms(1)] by (metis set_map)
  then show "group_built self g" by (rule consistentD [OF assms(1)])
qed





text \<open>The calls of one round of a stepping loop, for a group that has been set up.\<close>

lemma scaler_step_group_built:
  assumes "map_of (config self) g = Some e" and "map_of e ''optimizer'' = Some (OptCfg oc)"
    and "map_of (parameters self) g = Some ps"
  shows "scaler_step_group self grads g (optimizer_setup oc ps) =
    ((case max_norm oc of None \<Rightarrow> [] | Some m \<Rightarrow> [GradScaler_unscale g, Clip_grad_norm ps m]) @
       (if \<exists>p \<in> set ps. grads p \<noteq> None then [GradScaler_step g] else []), None)"
  using assms
  by (simp add: scaler_step_group_def config_max_norm_def any_grad_setup split: option.splits)


lemma scaler_step_named_built:
  assumes "consistent self" and "map_of (parameters self) g = Some ps"
  shows "snd (scaler_step_named self grads g) = None"
    and "(GradScaler_step h \<in> set (fst (scaler_step_named self grads g))) =
           (h = g \<and> (\<exists>p \<in> set ps. grads p \<noteq> None))"
    and "count_list (fst (scaler_step_named self grads g)) (GradScaler_step h) =
           (if h = g \<and> (\<exists>p \<in> set ps. grads p \<noteq> None) then 1 else 0)"
    and "c \<in> set (fst (scaler_step_named self grads g)) \<Longrightarrow>
           (call_group c = None \<or> call_group c = Some g) \<and> call_tensors self c \<subseteq> set ps"
proof -
  from assms(2) have "g \<in> fst ` set (parameters self)" by (force dest: map_of_SomeD)
  then have "group_built self g" by (rule consistentD [OF assms(1)])
  then obtain e oc where e: "map_of (config self) g = Some e"
    and oc: "map_of e ''optimizer'' = Some (OptCfg oc)"
    and opt: "map_of (optimizers self) g = Some (optimizer_setup oc ps)"
    using assms(2) by (auto elim!: group_builtD)
  have r: "scaler_step_named self grads g =
    ((case max_norm oc of None \<Rightarrow> [] | Some m \<Rightarrow> [GradScaler_unscale g, Clip_grad_norm ps m]) @
       (if \<exists>p \<in> set ps. grads p \<noteq> None then [GradScaler_step g] else []), None)"
    by (simp add: scaler_step_named_def opt scaler_step_group_built [OF e oc assms(2)])
  have t: "optimizer_tensors self g = set ps"
    by (simp add: optimizer_tensors_def opt optimizer_setup_def)
  show "snd (scaler_step_named self grads g) = None" by (simp add: r)
  show "(GradScaler_step h \<in> set (fst (scaler_step_named self grads g))) =
           (h = g \<and> (\<exists>p \<in> set ps. grads p \<noteq> None))"
    by (auto simp: r split: option.splits)
  show "count_list (fst (scaler_step_named self grads g)) (GradScaler_step h) =
           (if h = g \<and> (\<exists>p \<in> set ps. grads p \<noteq> None) then 1 else 0)"
    by (auto simp: r split: option.splits)
  show "(call_group c = None \<or> call_group c = Some g) \<and> call_tensors self c \<subseteq> set ps"
    if "c \<in> set (fst (scaler_step_named self grads g))"
    using that by (auto simp: r t split: option.splits if_splits)
qed











lemma zero_grad_calls:
  assumes c: "consistent self"
    and m: "x \<in> set (fst (case map_of (optimizers self) g of
                      None \<Rightarrow> ([], Some (KeyError g))
                    | Some opt \<Rightarrow> ([Optimizer_zero_grad g], None)))"
  shows "call_group x = Some g \<and> call_tensors self x \<subseteq> group_tensors self g"
proof -
  from m obtain opt where o: "map_of (optimizers self) g = Some opt"
    and x: "x = Optimizer_zero_grad g"
    by (cases "map_of (optimizers self) g") auto
  from o have "(g, opt) \<in> set (optimizers self)" by (rule map_of_SomeD)
  then have "group_built self g" by (rule consistent_item(2) [OF c])
  then obtain oc ps where "map_of (parameters self) g = Some ps"
    and "map_of (optimizers self) g = Some (optimizer_setup oc ps)"
    by (auto elim!: group_builtD)
  then show ?thesis
    by (simp add: x optimizer_tensors_def group_tensors_def optimizer_setup_def)
qed

lemma scaler_calls:
  assumes c: "consistent self" and m: "x \<in> set (fst (scaler_step_named self grads g))"
  shows "(call_group x = None \<or> call_group x = Some g) \<and>
    call_tensors self x \<subseteq> group_tensors self g"
proof -
  from m obtain opt where o: "map_of (optimizers self) g = Some opt"
    by (cases "map_of (optimizers self) g") (auto simp: scaler_step_named_def)
  from o have "(g, opt) \<in> set (optimizers self)" by (rule map_of_SomeD)
  then have "group_built self g" by (rule consistent_item(2) [OF c])
  then obtain ps where ps: "map_of (parameters self) g = Some ps"
    by (auto elim!: group_builtD)
  from scaler_step_named_built(4) [OF c ps m] ps show ?thesis
    by (simp add: group_tensors_def)
qed

subsection \<open>Unfolding the definitions on concrete inputs\<close>

lemmas example_defs = example_config_def example_param_groups_def example_grads_def
lemmas init_defs = init_def init_group_def fix_camera_opt_def init_scheduler_def Let_def
  optimizer_setup_def get_scheduler_def RAdamOptimizerConfig_def

section \<open>Claims\<close>

subsection \<open>Construction\<close>

text \<open>
  C1 (as amended). For every construction input in which a group name \<open>g\<close> other than
  \<open>camera_opt\<close> is present in the parameter mapping but absent from the configuration
  mapping, construction raises an exception. Whenever the groups before \<open>g\<close> in the
  parameter mapping are set up without exception, it is the fatal setup error that names
  \<open>g\<close> and lists all configured group names: the caller's, followed by \<open>camera_opt\<close>
  when that entry was synthesized earlier in the same call.
\<close>

theorem unconfigured_group_raises:
  assumes "g \<noteq> ''camera_opt''" and "map_of cfg g = None"
  shows "raised (init cfg (pre @ (g, ps) # post)) \<noteq> None \<and>
    (raised (init cfg pre) = None \<longrightarrow>
       raised (init cfg (pre @ (g, ps) # post)) =
         Some (RuntimeError g
           (map fst cfg @
              (if ''camera_opt'' \<in> fst ` set pre \<and> map_of cfg ''camera_opt'' = None
               then [''camera_opt''] else []))))"
proof
  have "\<not> group_ready cfg g" using assms by (simp add: group_ready_def)
  then show "raised (init cfg (pre @ (g, ps) # post)) \<noteq> None"
    by (simp add: init_raised)
next
  show "raised (init cfg pre) = None \<longrightarrow>
       raised (init cfg (pre @ (g, ps) # post)) =
         Some (RuntimeError g
           (map fst cfg @
              (if ''camera_opt'' \<in> fst ` set pre \<and> map_of cfg ''camera_opt'' = None
               then [''camera_opt''] else [])))"
  proof
    assume ok: "raised (init cfg pre) = None"
    let ?r = "init cfg pre"
    have c: "config (obj ?r) =
     (if ''camera_opt'' \<in> fst ` set pre \<and> map_of cfg ''camera_opt'' = None
      then cfg @ [(''camera_opt'', camera_opt_default)] else cfg)"
      by (rule init_config_ok [OF ok])
    then have none: "map_of (config (obj ?r)) g = None"
      using assms by (auto simp: map_add_def)
    have "raised (init_group g ps ?r) = Some (RuntimeError g (map fst (config (obj ?r))))"
      using none assms(1)
      by (simp add: init_group_def Let_def fix_camera_opt_def)
    then have "raised (init cfg (pre @ (g, ps) # post)) =
        Some (RuntimeError g (map fst (config (obj ?r))))"
      by (simp add: init_append ok Let_def)
    with c show "raised (init cfg (pre @ (g, ps) # post)) =
         Some (RuntimeError g
           (map fst cfg @
              (if ''camera_opt'' \<in> fst ` set pre \<and> map_of cfg ''camera_opt'' = None
               then [''camera_opt''] else [])))"
      by simp
  qed
qed

text \<open>
  An instance: \<open>camera_opt\<close> and \<open>a\<close> come first and are set up, \<open>b\<close> has no entry.
\<close>

theorem unconfigured_group_raises_witness:
  "''b'' \<noteq> ''camera_opt'' \<and>
   map_of [(''a'', [(''optimizer'', OptCfg (AdamOptimizerConfig (1 / 2000) (1 / 10 ^ 8))),
                    (''scheduler'', PyNone)])] ''b'' = None \<and>
   raised (init [(''a'', [(''optimizer'', OptCfg (AdamOptimizerConfig (1 / 2000) (1 / 10 ^ 8))),
                          (''scheduler'', PyNone)])]
             [(''camera_opt'', [0]), (''a'', [1])]) = None \<and>
   raised (init [(''a'', [(''optimizer'', OptCfg (AdamOptimizerConfig (1 / 2000) (1 / 10 ^ 8))),
                          (''scheduler'', PyNone)])]
             ([(''camera_opt'', [0]), (''a'', [1])] @ (''b'', [2]) # [(''c'', [3])])) =
     Some (RuntimeError ''b'' [''a'', ''camera_opt''])"
proof -
  let ?cfg = "[(''a'', [(''optimizer'', OptCfg (AdamOptimizerConfig (1 / 2000) (1 / 10 ^ 8))),
                        (''scheduler'', PyNone)])]"
  have h1: "''b'' \<noteq> ''camera_opt''" by simp
  have h2: "map_of ?cfg ''b'' = None" by simp
  have h3: "raised (init ?cfg [(''camera_opt'', [0]), (''a'', [1])]) = None"
    by (simp add: init_def init_group_def fix_camera_opt_def init_scheduler_def
        camera_opt_default_def Let_def)
  from unconfigured_group_raises [OF h1 h2, of "[(''camera_opt'', [0]), (''a'', [1])]" "[2]"
      "[(''c'', [3])]"] h3
  have "raised (init ?cfg ([(''camera_opt'', [0]), (''a'', [1])] @ (''b'', [2]) # [(''c'', [3])])) =
     Some (RuntimeError ''b'' [''a'', ''camera_opt''])"
    by simp
  with h1 h2 h3 show ?thesis by blast
qed

text \<open>
  C1 as stated fails when an earlier group raises first: here the entry of \<open>a\<close> has no
  \<open>scheduler\<close> key, and line 118 raises its KeyError before \<open>b\<close> is looked at.
\<close>

theorem unconfigured_group_counterexample:
  "''b'' \<noteq> ''camera_opt'' \<and>
   map_of [(''a'', [0]), (''b'', [1::nat])] ''b'' = Some [1] \<and>
   map_of [(''a'', [(''optimizer'', OptCfg (AdamOptimizerConfig (1 / 2000) (1 / 10 ^ 8)))])] ''b''
     = None \<and>
   raised (init [(''a'', [(''optimizer'', OptCfg (AdamOptimizerConfig (1 / 2000) (1 / 10 ^ 8)))])]
             [(''a'', [0]), (''b'', [1])]) = Some (KeyError ''scheduler'')"
  by (simp add: init_def init_group_def fix_camera_opt_def init_scheduler_def Let_def)




text \<open>
  C9. When the deprecation path runs (the loop gets to a group \<open>camera_opt\<close> while the
  configuration mapping has no such key, which is when the warning is printed), the
  caller's configuration mapping is changed in place: it has the new entry
  \<open>camera_opt\<close> after the call, whether or not construction then succeeds. In all other
  cases the mapping after the call is the mapping that was passed in.
\<close>

theorem config_changed_by_legacy_path:
  "((printed (init cfg pg) = [] \<and> config (obj (init cfg pg)) = cfg) \<or>
    (printed (init cfg pg) = [camera_opt_warning] \<and>
     config (obj (init cfg pg)) = cfg @ [(''camera_opt'', camera_opt_default)] \<and>
     config (obj (init cfg pg)) \<noteq> cfg)) \<and>
   (printed (init cfg pg) \<noteq> []) =
     (map_of cfg ''camera_opt'' = None \<and>
      (\<exists>pre ps post. pg = pre @ (''camera_opt'', ps) # post \<and> raised (init cfg pre) = None))"
proof
  show "(printed (init cfg pg) = [] \<and> config (obj (init cfg pg)) = cfg) \<or>
    (printed (init cfg pg) = [camera_opt_warning] \<and>
     config (obj (init cfg pg)) = cfg @ [(''camera_opt'', camera_opt_default)] \<and>
     config (obj (init cfg pg)) \<noteq> cfg)"
    using init_config [of cfg pg] by auto
next
  let ?r0 = "\<lparr>obj = \<lparr>config = cfg, optimizers = [], schedulers = [],
    parameters = []\<rparr>, printed = [], raised = None\<rparr>"
  show "(printed (init cfg pg) \<noteq> []) =
     (map_of cfg ''camera_opt'' = None \<and>
      (\<exists>pre ps post. pg = pre @ (''camera_opt'', ps) # post \<and> raised (init cfg pre) = None))"
  proof
    assume p: "printed (init cfg pg) \<noteq> []"
    with init_config [of cfg pg] have a: "map_of cfg ''camera_opt'' = None" by auto
    from p have "printed (init_loop pg ?r0) \<noteq> printed ?r0" by (simp add: init_def)
    with init_loop_first_fired [of ?r0 pg]
    have "\<exists>pre ps post. pg = pre @ (''camera_opt'', ps) # post \<and> raised (init cfg pre) = None"
      by (simp add: init_def)
    with a show "map_of cfg ''camera_opt'' = None \<and>
      (\<exists>pre ps post. pg = pre @ (''camera_opt'', ps) # post \<and> raised (init cfg pre) = None)" ..
  next
    assume "map_of cfg ''camera_opt'' = None \<and>
      (\<exists>pre ps post. pg = pre @ (''camera_opt'', ps) # post \<and> raised (init cfg pre) = None)"
    then obtain pre ps post where a: "map_of cfg ''camera_opt'' = None"
      and pg: "pg = pre @ (''camera_opt'', ps) # post" and ok: "raised (init cfg pre) = None"
      by blast
    let ?r1 = "init cfg pre"
    let ?r2 = "init_group ''camera_opt'' ps ?r1"
    have "printed ?r2 \<noteq> []"
      using init_config [of cfg pre] a
      by (auto simp: init_group_printed fix_camera_opt_printed)
    moreover have "init cfg pg = (case raised ?r2 of Some e \<Rightarrow> ?r2 | None \<Rightarrow> init_loop post ?r2)"
      by (simp add: pg init_append ok Let_def)
    moreover from init_loop_config [of post ?r2]
    have "length (printed (init_loop post ?r2)) \<ge> length (printed ?r2)" by auto
    ultimately show "printed (init cfg pg) \<noteq> []"
      by (cases "raised ?r2") auto
  qed
qed

text \<open>An instance: the empty configuration mapping has one entry afterwards.\<close>

theorem config_changed_by_legacy_path_witness:
  "printed (init [] [(''camera_opt'', [0])]) = [camera_opt_warning] \<and>
   config (obj (init [] [(''camera_opt'', [0])])) = [(''camera_opt'', camera_opt_default)] \<and>
   config (obj (init [] [(''camera_opt'', [0])])) \<noteq> []"
proof -
  have "printed (init [] [(''camera_opt'', [0])]) \<noteq> []"
    by (simp add: init_def init_group_def fix_camera_opt_def init_scheduler_def Let_def
        camera_opt_default_def)
  with config_changed_by_legacy_path [of "[]" "[(''camera_opt'', [0])]"] show ?thesis
    by auto
qed




subsection \<open>Stepping\<close>








text \<open>
  C8. The methods assign no attribute of the coordinator. Every call that
  \<open>zero_grad_some\<close> or \<open>optimizer_scaler_step_some\<close> makes, also when the method stops
  at an unknown name, is on the optimizer of a named group or on the parameter list of a
  named group: no call is made on the optimizer of a group outside the names, and no
  tensor is reached but those of the named groups. So a group outside the names that
  shares no tensor with them is left as it was.
\<close>

theorem subset_calls_stay_inside:
  assumes "raised (init cfg pg) = None" and "h \<notin> set names"
    and "c \<in> set (fst (zero_grad_some (obj (init cfg pg)) names)) \<or>
         c \<in> set (fst (optimizer_scaler_step_some (obj (init cfg pg)) grads names))"
  shows "call_group c \<noteq> Some h \<and>
    call_tensors (obj (init cfg pg)) c \<subseteq> (\<Union>g \<in> set names. group_tensors (obj (init cfg pg)) g) \<and>
    (group_tensors (obj (init cfg pg)) h \<inter>
       (\<Union>g \<in> set names. group_tensors (obj (init cfg pg)) g) = {} \<longrightarrow>
     call_tensors (obj (init cfg pg)) c \<inter> group_tensors (obj (init cfg pg)) h = {})"
proof -
  let ?self = "obj (init cfg pg)"
  have c: "consistent ?self" by (rule init_consistent [OF assms(1)])
  have "\<exists>g \<in> set names. (call_group c = None \<or> call_group c = Some g) \<and>
      call_tensors ?self c \<subseteq> group_tensors ?self g"
    using assms(3)
  proof
    assume "c \<in> set (fst (zero_grad_some ?self names))"
    then obtain g where "g \<in> set names"
      and "c \<in> set (fst (case map_of (optimizers ?self) g of
                      None \<Rightarrow> ([], Some (KeyError g))
                    | Some opt \<Rightarrow> ([Optimizer_zero_grad g], None)))"
      unfolding zero_grad_some_def by (blast dest: for_each_calls)
    with zero_grad_calls [OF c this(2)] show ?thesis by blast
  next
    assume "c \<in> set (fst (optimizer_scaler_step_some ?self grads names))"
    then obtain g where "g \<in> set names"
      and "c \<in> set (fst (scaler_step_named ?self grads g))"
      unfolding optimizer_scaler_step_some_def by (blast dest: for_each_calls)
    with scaler_calls [OF c this(2)] show ?thesis by blast
  qed
  then obtain g where g: "g \<in> set names"
    and cg: "call_group c = None \<or> call_group c = Some g"
    and ct: "call_tensors ?self c \<subseteq> group_tensors ?self g" by blast
  from g assms(2) have "g \<noteq> h" by blast
  with cg have 1: "call_group c \<noteq> Some h" by auto
  from g ct have 2: "call_tensors ?self c \<subseteq> (\<Union>g \<in> set names. group_tensors ?self g)" by blast
  from 1 2 show ?thesis by blast
qed

text \<open>An instance: the calls made for \<open>a\<close> reach nothing of \<open>b\<close>.\<close>

theorem subset_calls_stay_inside_witness:
  "raised (init example_config example_param_groups) = None \<and>
   ''b'' \<notin> set [''a''] \<and>
   Clip_grad_norm [0, 1] 1 \<in> set (fst (optimizer_scaler_step_some
     (obj (init example_config example_param_groups)) example_grads [''a''])) \<and>
   Optimizer_zero_grad ''a'' \<in> set (fst (zero_grad_some
     (obj (init example_config example_param_groups)) [''a''])) \<and>
   group_tensors (obj (init example_config example_param_groups)) ''b'' \<inter>
     (\<Union>g \<in> set [''a'']. group_tensors (obj (init example_config example_param_groups)) g) = {} \<and>
   call_tensors (obj (init example_config example_param_groups)) (Clip_grad_norm [0, 1] 1) \<inter>
     group_tensors (obj (init example_config example_param_groups)) ''b'' = {} \<and>
   call_group (Optimizer_zero_grad ''a'') \<noteq> Some ''b'' \<and>
   call_tensors (obj (init example_config example_param_groups)) (Optimizer_zero_grad ''a'') \<inter>
     group_tensors (obj (init example_config example_param_groups)) ''b'' = {}"
proof -
  let ?self = "obj (init example_config example_param_groups)"
  have h1: "raised (init example_config example_param_groups) = None"
    by (simp add: example_defs init_defs)
  have h2: "''b'' \<notin> set [''a'']" by simp
  have s: "Clip_grad_norm [0, 1] 1 \<in> set (fst (optimizer_scaler_step_some ?self example_grads [''a'']))"
    by (simp add: example_defs init_defs optimizer_scaler_step_some_def
        scaler_step_named_def scaler_step_group_def config_max_norm_def any_grad_def)
  have z: "Optimizer_zero_grad ''a'' \<in> set (fst (zero_grad_some ?self [''a'']))"
    by (simp add: example_defs init_defs zero_grad_some_def)
  have d: "group_tensors ?self ''b'' \<inter> (\<Union>g \<in> set [''a'']. group_tensors ?self g) = {}"
    by (simp add: example_defs init_defs group_tensors_def)
  from subset_calls_stay_inside [OF h1 h2, of "Clip_grad_norm [0, 1] 1" example_grads] s d
  have A: "call_tensors ?self (Clip_grad_norm [0, 1] 1) \<inter> group_tensors ?self ''b'' = {}"
    by blast
  from subset_calls_stay_inside [OF h1 h2, of "Optimizer_zero_grad ''a''" example_grads] z d
  have B: "call_group (Optimizer_zero_grad ''a'') \<noteq> Some ''b'' \<and>
      call_tensors ?self (Optimizer_zero_grad ''a'') \<inter> group_tensors ?self ''b'' = {}"
    by blast
  from h1 h2 s z d A B show ?thesis by blast
qed

subsection \<open>Schedulers\<close>

text \<open>
  C5. The claim holds for a group that has a scheduler (\<open>b\<close>: one call of its
  \<open>step\<close>), and the code breaks it for a group configured with \<open>scheduler = None\<close>
  (\<open>a\<close>): line 139 tests whether the key \<open>scheduler\<close> is in the entry, which it
  is, and line 140 then looks the group up in \<open>self.schedulers\<close>, where line 118 put
  nothing; the call raises KeyError instead of doing nothing.
\<close>

theorem scheduler_step_without_scheduler:
  "raised (init example_config example_param_groups) = None \<and>
   map_of example_config ''a'' =
     Some [(''optimizer'',
            OptCfg \<lparr>target = Adam, lr = 1 / 2000, eps = 1 / 10 ^ 8, max_norm = Some 1,
                    weight_decay = Some 0\<rparr>),
           (''scheduler'', PyNone)] \<and>
   map_of (schedulers (obj (init example_config example_param_groups))) ''a'' = None \<and>
   scheduler_step (obj (init example_config example_param_groups)) ''a'' =
     ([], Some (KeyError ''a'')) \<and>
   scheduler_step (obj (init example_config example_param_groups)) ''b'' =
     ([Scheduler_step ''b''], None)"
  by (simp add: example_defs init_defs scheduler_step_def)

subsection \<open>Loading checkpoint state\<close>




end
